theory Spec2Isabelle
  imports Complex_Main "HOL-Library.Sublist" "HOL-Library.Multiset"
begin

section \<open>Data model\<close>

text \<open>
  The client component \<^verbatim>\<open>CsvDataViewer.tsx\<close> receives the rows of one CSV file and keeps
  its view state in React state cells. A row's \<^verbatim>\<open>rowData\<close> is a JavaScript object used as
  \<^verbatim>\<open>Record<string, string>\<close>: an insertion-ordered list of key/value pairs.
\<close>

type_synonym field_map = "(string \<times> string) list"

record csv_row =
  row_id :: string
  csvFileId :: string
  rowIndex :: int
  rowData :: field_map

datatype direction = Asc | Desc

record sort_config =
  key :: string
  direction :: direction

record editing_cell =
  rowId :: string
  column :: string

text \<open>
  A slot of the \<^verbatim>\<open>columnOrder\<close> array holds a column name, or JavaScript's
  \<^verbatim>\<open>undefined\<close> (\<open>None\<close>), which \<^verbatim>\<open>handleColumnReorder\<close> can store there.
\<close>

type_synonym column_slot = "string option"

record view_state =
  selectedRows :: "string set"
  sortConfig :: "sort_config option"
  visibleColumns :: "column_slot list"
  columnOrder :: "column_slot list"
  filterText :: string
  currentPage :: int
  editingCell :: "editing_cell option"
  editValue :: string

text \<open>The state a freshly mounted viewer starts in (the \<^verbatim>\<open>useState\<close> initialisers).\<close>

definition initial_state :: "string list \<Rightarrow> view_state" where
  "initial_state columnHeaders =
     \<lparr> selectedRows = {},
       sortConfig = None,
       visibleColumns = map Some columnHeaders,
       columnOrder = map Some columnHeaders,
       filterText = [],
       currentPage = 1,
       editingCell = None,
       editValue = [] \<rparr>"

definition rowsPerPage :: int where
  "rowsPerPage = 10"

text \<open>A thrown JavaScript \<^verbatim>\<open>Error\<close>, with its message.\<close>

datatype error = Error string

section \<open>Sorting: the toggle rule\<close>

text \<open>
  \<^verbatim>\<open>handleSort(column)\<close> replaces the sort configuration: the direction is \<^verbatim>\<open>'desc'\<close>
  exactly when the current configuration has the same key and direction \<^verbatim>\<open>'asc'\<close>.
\<close>

definition handleSort_config :: "string \<Rightarrow> sort_config option \<Rightarrow> sort_config option" where
  "handleSort_config col current =
     Some \<lparr> key = col,
            direction =
              (if (case current of None \<Rightarrow> False
                   | Some c \<Rightarrow> key c = col \<and> direction c = Asc)
               then Desc else Asc) \<rparr>"

definition handleSort :: "view_state \<Rightarrow> string \<Rightarrow> view_state" where
  "handleSort st col = st\<lparr>sortConfig := handleSort_config col (sortConfig st)\<rparr>"

section \<open>JavaScript built-ins used by the viewer\<close>

text \<open>
  \<^verbatim>\<open>String.prototype.toLowerCase\<close>, on the ASCII range: the letters \<^verbatim>\<open>A\<close> to
  \<^verbatim>\<open>Z\<close> are mapped to \<^verbatim>\<open>a\<close> to \<^verbatim>\<open>z\<close>, every other character is kept.
\<close>

definition toLowerCase_char :: "char \<Rightarrow> char" where
  "toLowerCase_char c =
     (let n = (of_char c :: nat) in if 65 \<le> n \<and> n \<le> 90 then char_of (n + 32) else c)"

definition toLowerCase :: "string \<Rightarrow> string" where
  "toLowerCase s = map toLowerCase_char s"

text \<open>\<^verbatim>\<open>s.includes(t)\<close>: \<open>t\<close> occurs in \<open>s\<close> as a contiguous substring.\<close>

fun includes_str :: "string \<Rightarrow> string \<Rightarrow> bool" where
  "includes_str [] t = (t = [])"
| "includes_str (c # s) t = (prefix t (c # s) \<or> includes_str s t)"

text \<open>\<^verbatim>\<open>Object.values(o)\<close>: the values of the object's own properties, in order.\<close>

definition Object_values :: "field_map \<Rightarrow> string list" where
  "Object_values obj = map snd obj"

text \<open>
  The relative index of \<^verbatim>\<open>Array.prototype.slice\<close> and \<^verbatim>\<open>Array.prototype.splice\<close>:
  a negative index counts from the end, and the result is clamped into \<open>[0, len]\<close>.
\<close>

definition relativeIndex :: "int \<Rightarrow> nat \<Rightarrow> nat" where
  "relativeIndex i len = (if i < 0 then nat (max (int len + i) 0) else min (nat i) len)"

definition Array_slice :: "'a list \<Rightarrow> int \<Rightarrow> int \<Rightarrow> 'a list" where
  "Array_slice xs start stop =
     (let k = relativeIndex start (length xs);
          final = relativeIndex stop (length xs)
      in take (final - k) (drop k xs))"

text \<open>
  \<^verbatim>\<open>xs.splice(start, deleteCount, ...items)\<close> returns the removed elements and leaves
  the array with \<open>items\<close> in their place; the model returns both.
\<close>

definition Array_splice :: "'a list \<Rightarrow> int \<Rightarrow> nat \<Rightarrow> 'a list \<Rightarrow> 'a list \<times> 'a list" where
  "Array_splice xs start deleteCount items =
     (let k = relativeIndex start (length xs);
          d = min deleteCount (length xs - k)
      in (take d (drop k xs), take k xs @ items @ drop (k + d) xs))"

text \<open>
  \<^verbatim>\<open>Array.prototype.sort(comparefn)\<close> is a stable sort: elements that the comparator
  reports as equal keep their order. It is modelled as a stable insertion sort; the last
  element is inserted first, and an element goes in front of the first one it does not
  exceed.
\<close>

fun insert_sorted :: "('a \<Rightarrow> 'a \<Rightarrow> int) \<Rightarrow> 'a \<Rightarrow> 'a list \<Rightarrow> 'a list" where
  "insert_sorted cmp x [] = [x]"
| "insert_sorted cmp x (y # ys) =
     (if cmp x y \<le> 0 then x # y # ys else y # insert_sorted cmp x ys)"

definition Array_sort :: "('a \<Rightarrow> 'a \<Rightarrow> int) \<Rightarrow> 'a list \<Rightarrow> 'a list" where
  "Array_sort cmp xs = foldr (insert_sorted cmp) xs []"

text \<open>
  \<^verbatim>\<open>String.prototype.localeCompare\<close> depends on the host's locale data, so the sort
  takes it as a parameter. What the language standard asks of it is that it is a
  consistent comparator: the sign flips when the arguments are swapped, and the induced
  ordering is transitive.
\<close>

definition consistent_comparator :: "('a \<Rightarrow> 'a \<Rightarrow> int) \<Rightarrow> bool" where
  "consistent_comparator cmp \<longleftrightarrow>
     (\<forall>a b. (cmp a b < 0) = (0 < cmp b a)) \<and>
     (\<forall>a b c. cmp a b \<le> 0 \<longrightarrow> cmp b c \<le> 0 \<longrightarrow> cmp a c \<le> 0)"

text \<open>
  A concrete consistent comparator, used to run the model: strings are compared
  character by character by their codes, a proper prefix coming first.
\<close>

fun codeUnitCompare :: "string \<Rightarrow> string \<Rightarrow> int" where
  "codeUnitCompare [] [] = 0"
| "codeUnitCompare [] (y # ys) = - 1"
| "codeUnitCompare (x # xs) [] = 1"
| "codeUnitCompare (x # xs) (y # ys) =
     (if (of_char x :: nat) < of_char y then - 1
      else if (of_char y :: nat) < of_char x then 1
      else codeUnitCompare xs ys)"

text \<open>
  Reading and writing a property of a \<^verbatim>\<open>Record<string, string>\<close>:
  \<^verbatim>\<open>obj[k] || ''\<close> is the empty string when the property is absent (or empty), and
  \<^verbatim>\<open>obj[k] = v\<close> overwrites the property in place or appends it.
\<close>

definition field_or_empty :: "field_map \<Rightarrow> string \<Rightarrow> string" where
  "field_or_empty obj k = (case map_of obj k of None \<Rightarrow> [] | Some v \<Rightarrow> v)"

fun object_set :: "field_map \<Rightarrow> string \<Rightarrow> string \<Rightarrow> field_map" where
  "object_set [] k v = [(k, v)]"
| "object_set ((k', v') # kvs) k v =
     (if k' = k then (k, v) # kvs else (k', v') # object_set kvs k v)"

section \<open>The derivation pipeline: filter, then sort, then paginate\<close>

text \<open>
  \<^verbatim>\<open>filteredRows\<close>: a row is kept when some value of its \<^verbatim>\<open>rowData\<close>, lowercased,
  includes the lowercased filter text.
\<close>

definition filteredRows :: "csv_row list \<Rightarrow> string \<Rightarrow> csv_row list" where
  "filteredRows rows ft =
     filter (\<lambda>row. list_ex (\<lambda>v. includes_str (toLowerCase v) (toLowerCase ft))
                      (Object_values (rowData row))) rows"

text \<open>
  \<^verbatim>\<open>paginatedRows\<close> and \<^verbatim>\<open>totalPages\<close>. \<^verbatim>\<open>Math.ceil(n / rowsPerPage)\<close> is computed
  on the real quotient.
\<close>

definition paginatedRows :: "'a list \<Rightarrow> int \<Rightarrow> 'a list" where
  "paginatedRows sorted_rows page =
     (let start = (page - 1) * rowsPerPage
      in Array_slice sorted_rows start (start + rowsPerPage))"

definition totalPages :: "'a list \<Rightarrow> int" where
  "totalPages sorted_rows = \<lceil>real (length sorted_rows) / real_of_int rowsPerPage\<rceil>"

text \<open>
  \<^verbatim>\<open>sortedRows\<close>: without a sort configuration the filtered rows are returned as they
  are; otherwise a copy is sorted by the configured column, the comparator's arguments
  being swapped for the descending direction.
\<close>

definition compareRows :: "(string \<Rightarrow> string \<Rightarrow> int) \<Rightarrow> sort_config \<Rightarrow> csv_row \<Rightarrow> csv_row \<Rightarrow> int" where
  "compareRows localeCompare cfg a b =
     (let aValue = field_or_empty (rowData a) (key cfg);
          bValue = field_or_empty (rowData b) (key cfg)
      in if direction cfg = Asc then localeCompare aValue bValue
         else localeCompare bValue aValue)"

definition sortedRows ::
  "(string \<Rightarrow> string \<Rightarrow> int) \<Rightarrow> csv_row list \<Rightarrow> sort_config option \<Rightarrow> csv_row list" where
  "sortedRows localeCompare filtered cfg =
     (case cfg of None \<Rightarrow> filtered
      | Some c \<Rightarrow> Array_sort (compareRows localeCompare c) filtered)"

text \<open>The rows the component derives from its props and state, and their page count.\<close>

definition view_sortedRows ::
  "(string \<Rightarrow> string \<Rightarrow> int) \<Rightarrow> csv_row list \<Rightarrow> view_state \<Rightarrow> csv_row list" where
  "view_sortedRows localeCompare rows st =
     sortedRows localeCompare (filteredRows rows (filterText st)) (sortConfig st)"

definition view_totalPages ::
  "(string \<Rightarrow> string \<Rightarrow> int) \<Rightarrow> csv_row list \<Rightarrow> view_state \<Rightarrow> int" where
  "view_totalPages localeCompare rows st = totalPages (view_sortedRows localeCompare rows st)"

section \<open>Commands\<close>

text \<open>The filter input's \<^verbatim>\<open>onChange\<close> handler stores the new text and nothing else.\<close>

definition setFilterText :: "view_state \<Rightarrow> string \<Rightarrow> view_state" where
  "setFilterText st text = st\<lparr>filterText := text\<rparr>"

text \<open>
  The pagination buttons. \<^verbatim>\<open>Previous\<close> sets the page to \<^verbatim>\<open>Math.max(1, p - 1)\<close> and is
  disabled on page 1; \<^verbatim>\<open>Next\<close> sets it to \<^verbatim>\<open>Math.min(totalPages, p + 1)\<close> and is
  disabled when the page equals \<^verbatim>\<open>totalPages\<close>. A disabled button delivers no click.
\<close>

definition previousPage :: "view_state \<Rightarrow> view_state" where
  "previousPage st = st\<lparr>currentPage := max 1 (currentPage st - 1)\<rparr>"

definition nextPage :: "int \<Rightarrow> view_state \<Rightarrow> view_state" where
  "nextPage pages st = st\<lparr>currentPage := min pages (currentPage st + 1)\<rparr>"

definition clickPrevious :: "view_state \<Rightarrow> view_state" where
  "clickPrevious st = (if currentPage st = 1 then st else previousPage st)"

definition clickNext ::
  "(string \<Rightarrow> string \<Rightarrow> int) \<Rightarrow> csv_row list \<Rightarrow> view_state \<Rightarrow> view_state" where
  "clickNext localeCompare rows st =
     (let pages = view_totalPages localeCompare rows st
      in if currentPage st = pages then st else nextPage pages st)"

text \<open>
  \<^verbatim>\<open>handleColumnReorder(dragIndex, dropIndex)\<close>: one element is spliced out of a copy
  of \<^verbatim>\<open>columnOrder\<close> and the first removed element (\<^verbatim>\<open>undefined\<close> when nothing was
  removed) is spliced in at \<^verbatim>\<open>dropIndex\<close>. The handler has no \<^verbatim>\<open>throw\<close>: every call
  returns.
\<close>

definition handleColumnReorder :: "view_state \<Rightarrow> int \<Rightarrow> int \<Rightarrow> error + view_state" where
  "handleColumnReorder st dragIndex dropIndex =
     (let newOrder = columnOrder st;
          (removedElements, newOrder') = Array_splice newOrder dragIndex 1 [];
          removed = (case removedElements of [] \<Rightarrow> None | r # _ \<Rightarrow> r);
          (_, newOrder'') = Array_splice newOrder' dropIndex 0 [removed]
      in Inr (st\<lparr>columnOrder := newOrder''\<rparr>))"

text \<open>
  \<^verbatim>\<open>handleCellEdit\<close> starts (or replaces) the edit session; typing in the cell's input
  replaces the pending value.
\<close>

definition handleCellEdit :: "view_state \<Rightarrow> string \<Rightarrow> string \<Rightarrow> string \<Rightarrow> view_state" where
  "handleCellEdit st rid col v = st\<lparr>editingCell := Some \<lparr>rowId = rid, column = col\<rparr>, editValue := v\<rparr>"

definition setEditValue :: "view_state \<Rightarrow> string \<Rightarrow> view_state" where
  "setEditValue st v = st\<lparr>editValue := v\<rparr>"

text \<open>
  \<^verbatim>\<open>handleCellSave\<close>. The prop \<^verbatim>\<open>onRowUpdate\<close> returns a promise; the model gives its
  settlement: \<open>None\<close> when it resolves, \<open>Some e\<close> when it rejects with \<open>e\<close>. The handler
  awaits the promise, so a rejection is rethrown at the \<^verbatim>\<open>await\<close> and the statement after
  it, \<^verbatim>\<open>setEditingCell(null)\<close>, does not run. The outcome records the calls made to
  \<^verbatim>\<open>onRowUpdate\<close>, the error the handler's own promise rejects with, and the view state.
\<close>

type_synonym row_update = "string \<Rightarrow> field_map \<Rightarrow> error option"

record save_outcome =
  update_calls :: "(string \<times> field_map) list"
  rejected :: "error option"
  state_after :: view_state

definition handleCellSave :: "csv_row list \<Rightarrow> row_update \<Rightarrow> view_state \<Rightarrow> save_outcome" where
  "handleCellSave rows onRowUpdate st =
     (case editingCell st of
        None \<Rightarrow> \<lparr>update_calls = [], rejected = None, state_after = st\<rparr>
      | Some cell \<Rightarrow>
          (case find (\<lambda>r. row_id r = rowId cell) rows of
             None \<Rightarrow> \<lparr>update_calls = [], rejected = None, state_after = st\<rparr>
           | Some row \<Rightarrow>
               (let newData = object_set (rowData row) (column cell) (editValue st)
                in case onRowUpdate (rowId cell) newData of
                     Some e \<Rightarrow>
                       \<lparr>update_calls = [(rowId cell, newData)], rejected = Some e,
                        state_after = st\<rparr>
                   | None \<Rightarrow>
                       \<lparr>update_calls = [(rowId cell, newData)], rejected = None,
                        state_after = st\<lparr>editingCell := None\<rparr>\<rparr>)))"

section \<open>Server operation: updating a row\<close>

text \<open>
  The database holds the \<^verbatim>\<open>CsvFile\<close> and \<^verbatim>\<open>CsvRow\<close> tables. An operation's
  outcome is its result (the value returned or the error thrown), the database it leaves,
  and the accesses it made to the database, in order.
\<close>

record csv_file =
  file_id :: string
  userId :: int
  fileName :: string

record database =
  CsvFile_table :: "csv_file list"
  CsvRow_table :: "csv_row list"

record auth_user =
  user_id :: int

datatype db_access = CsvRow_findUnique string | CsvRow_update string

record op_outcome =
  result :: "error + csv_row"
  database_after :: database
  accesses :: "db_access list"

text \<open>
  \<^verbatim>\<open>CsvRow.findUnique({ where: { id }, include: { csvFile: true } })\<close>: the row with
  that id, joined with the file its \<^verbatim>\<open>csvFileId\<close> refers to.
\<close>

definition findUnique_with_csvFile :: "database \<Rightarrow> string \<Rightarrow> (csv_row \<times> csv_file option) option" where
  "findUnique_with_csvFile db rid =
     (case find (\<lambda>r. row_id r = rid) (CsvRow_table db) of
        None \<Rightarrow> None
      | Some r \<Rightarrow> Some (r, find (\<lambda>f. file_id f = csvFileId r) (CsvFile_table db)))"

text \<open>\<^verbatim>\<open>CsvRow.update({ where: { id }, data: { rowData } })\<close>.\<close>

definition update_rowData :: "database \<Rightarrow> string \<Rightarrow> field_map \<Rightarrow> database" where
  "update_rowData db rid newData =
     db\<lparr>CsvRow_table :=
          map (\<lambda>r. if row_id r = rid then r\<lparr>rowData := newData\<rparr> else r) (CsvRow_table db)\<rparr>"

text \<open>
  \<^verbatim>\<open>updateCsvRow({ rowId, newData }, context)\<close>, with \<^verbatim>\<open>context.user\<close> as the first
  argument. A row whose file is missing cannot be stored (the relation is required); there
  \<^verbatim>\<open>row.csvFile.userId\<close> would raise a \<^verbatim>\<open>TypeError\<close>.
\<close>

definition updateCsvRow :: "auth_user option \<Rightarrow> database \<Rightarrow> string \<Rightarrow> field_map \<Rightarrow> op_outcome" where
  "updateCsvRow user db rid newData =
     (case user of
        None \<Rightarrow> \<lparr>result = Inl (Error ''Not authorized''), database_after = db, accesses = []\<rparr>
      | Some u \<Rightarrow>
          (case findUnique_with_csvFile db rid of
             None \<Rightarrow>
               \<lparr>result = Inl (Error ''Row not found''), database_after = db,
                accesses = [CsvRow_findUnique rid]\<rparr>
           | Some (row, None) \<Rightarrow>
               \<lparr>result = Inl (Error ''TypeError''), database_after = db,
                accesses = [CsvRow_findUnique rid]\<rparr>
           | Some (row, Some file) \<Rightarrow>
               if userId file \<noteq> user_id u
               then \<lparr>result = Inl (Error ''Not authorized to modify this row''),
                     database_after = db, accesses = [CsvRow_findUnique rid]\<rparr>
               else \<lparr>result = Inr (row\<lparr>rowData := newData\<rparr>),
                     database_after = update_rowData db rid newData,
                     accesses = [CsvRow_findUnique rid, CsvRow_update rid]\<rparr>))"

text \<open>
  The page \<^verbatim>\<open>CsvViewer.tsx\<close> passes the viewer an \<^verbatim>\<open>onRowUpdate\<close> that awaits the
  server operation: it rejects exactly when the operation throws.
\<close>

definition CsvViewer_onRowUpdate :: "auth_user option \<Rightarrow> database \<Rightarrow> row_update" where
  "CsvViewer_onRowUpdate user db rid newData =
     (case result (updateCsvRow user db rid newData) of Inl e \<Rightarrow> Some e | Inr _ \<Rightarrow> None)"

section \<open>Test data\<close>

definition bob :: csv_row where
  "bob = \<lparr>row_id = ''r1'', csvFileId = ''f1'', rowIndex = 0,
           rowData = [(''name'', ''Bob''), (''age'', ''30'')]\<rparr>"

definition al :: csv_row where
  "al = \<lparr>row_id = ''r2'', csvFileId = ''f1'', rowIndex = 1,
          rowData = [(''name'', ''Al''), (''age'', ''25'')]\<rparr>"

definition numbered_rows :: "nat \<Rightarrow> csv_row list" where
  "numbered_rows n =
     map (\<lambda>i. \<lparr>row_id = replicate (Suc i) CHR ''r'', csvFileId = ''f1'', rowIndex = int i,
                rowData = [(''name'', if i = 0 then ''first'' else ''other'')]\<rparr>) [0..<n]"


definition editing_age :: view_state where
  "editing_age =
     setEditValue (handleCellEdit (initial_state [''name'', ''age'']) ''r2'' ''age'' ''25'') ''26''"

definition db_without_al :: database where
  "db_without_al =
     \<lparr>CsvFile_table = [\<lparr>file_id = ''f1'', userId = 7, fileName = ''people.csv''\<rparr>],
      CsvRow_table = [bob]\<rparr>"

definition second_page_then_filtered :: view_state where
  "second_page_then_filtered =
     setFilterText (clickNext codeUnitCompare (numbered_rows 11) (initial_state [''name'']))
       ''first''"

definition people_file :: csv_file where
  "people_file = \<lparr>file_id = ''f1'', userId = 7, fileName = ''people.csv''\<rparr>"

definition db_people :: database where
  "db_people = \<lparr>CsvFile_table = [people_file], CsvRow_table = [bob, al]\<rparr>"


section \<open>Verified properties\<close>

subsection \<open>Pagination\<close>

lemma totalPages_div: "totalPages xs = (int (length xs) + 9) div 10"
proof -
  have "\<lceil>real (length xs) / 10\<rceil> = \<lceil>real_of_int (int (length xs)) / real_of_int 10\<rceil>"
    by simp
  also have "\<dots> = - ((- int (length xs)) div 10)"
    by (simp only: ceiling_divide_eq_div)
  also have "\<dots> = (int (length xs) + 9) div 10"
    by presburger
  finally show ?thesis
    by (simp add: totalPages_def rowsPerPage_def)
qed

lemma totalPages_bounds:
  "int (length xs) \<le> totalPages xs * 10 \<and> totalPages xs * 10 < int (length xs) + 10"
  unfolding totalPages_div by presburger

lemma paginatedRows_take_drop:
  assumes "1 \<le> p"
  shows "paginatedRows xs p = take 10 (drop (nat ((p - 1) * 10)) xs)"
proof -
  have "relativeIndex ((p - 1) * 10) (length xs) = min (nat ((p - 1) * 10)) (length xs)"
    using assms by (simp add: relativeIndex_def)
  moreover have "relativeIndex ((p - 1) * 10 + 10) (length xs) = min (nat ((p - 1) * 10) + 10) (length xs)"
    using assms by (simp add: relativeIndex_def nat_add_distrib)
  ultimately show ?thesis
    by (auto simp: paginatedRows_def Array_slice_def rowsPerPage_def Let_def min_def)
qed

lemma paginatedRows_zero: "paginatedRows xs 0 = []"
  by (simp add: paginatedRows_def Array_slice_def relativeIndex_def rowsPerPage_def Let_def)

lemma take_drop_nth: "take n (drop a xs) = map (\<lambda>i. xs ! i) [a..<min (a + n) (length xs)]"
proof (rule nth_equalityI)
  show "length (take n (drop a xs)) = length (map (\<lambda>i. xs ! i) [a..<min (a + n) (length xs)])"
    by (auto simp: min_def)
next
  fix i assume "i < length (take n (drop a xs))"
  then have "i < n" "a + i < length xs" by auto
  then show "take n (drop a xs) ! i = map (\<lambda>i. xs ! i) [a..<min (a + n) (length xs)] ! i"
    by (simp add: min_def)
qed

lemma upto_as_map: "[1..int n] = map (\<lambda>k. int k + 1) [0..<n]"
  by (induction n) (simp_all add: upto_rec2)

lemma concat_pages: "concat (map (\<lambda>k. take 10 (drop (k * 10) xs)) [0..<n]) = take (n * 10) xs"
proof (induction n)
  case 0 show ?case by simp
next
  case (Suc n)
  have "take (n * 10) xs @ take 10 (drop (n * 10) xs) = take (n * 10 + 10) xs"
    by (simp add: take_add)
  with Suc show ?case by (simp add: add.commute)
qed

lemma pages_concat: "concat (map (paginatedRows rows) [1..totalPages rows]) = rows"
proof -
  define n where "n = nat (totalPages rows)"
  have nonneg: "0 \<le> totalPages rows" unfolding totalPages_div by simp
  then have tp: "totalPages rows = int n" by (simp add: n_def)
  have "map (paginatedRows rows) [1..int n] = map (\<lambda>k. take 10 (drop (k * 10) rows)) [0..<n]"
    by (simp add: upto_as_map paginatedRows_take_drop nat_mult_distrib)
  then have "concat (map (paginatedRows rows) [1..totalPages rows]) = take (n * 10) rows"
    by (simp add: tp concat_pages)
  moreover have "length rows \<le> n * 10"
    using totalPages_bounds [of rows] by (simp add: tp)
  ultimately show ?thesis by simp
qed

text \<open>
  C3 (as amended). For every row sequence and every page number (the pages count from 1;
  the statement also covers 0, the only other value the current page can take), the page
  is exactly the rows at the positions from \<open>(page - 1) * rowsPerPage\<close> up to, and not
  including, \<open>page * rowsPerPage\<close>, as far as the sequence has them; \<open>totalPages\<close> is
  the ceiling of the length divided by the page size, the least number of pages that
  holds all rows. There is no minimum of 1: it is 0 exactly for the empty sequence.
\<close>

theorem paginate_slice_totalPages:
  "(0 \<le> page \<longrightarrow>
      paginatedRows rows page =
        map (\<lambda>i. rows ! i)
          [nat ((page - 1) * rowsPerPage)..<min (nat (page * rowsPerPage)) (length rows)])
   \<and> totalPages rows = \<lceil>real (length rows) / real_of_int rowsPerPage\<rceil>
   \<and> int (length rows) \<le> totalPages rows * rowsPerPage
   \<and> totalPages rows * rowsPerPage < int (length rows) + rowsPerPage
   \<and> (totalPages rows = 0 \<longleftrightarrow> rows = [])"
proof -
  have "paginatedRows rows page =
        map (\<lambda>i. rows ! i)
          [nat ((page - 1) * rowsPerPage)..<min (nat (page * rowsPerPage)) (length rows)]"
    if "0 \<le> page"
  proof (cases "page = 0")
    case True
    then show ?thesis
      by (simp add: paginatedRows_zero)
  next
    case False
    then have page: "1 \<le> page"
      using that by simp
    then have "nat ((page - 1) * 10) + 10 = nat (page * 10)"
      by (simp add: nat_eq_iff algebra_simps)
    then show ?thesis
      using page by (simp add: paginatedRows_take_drop take_drop_nth rowsPerPage_def)
  qed
  moreover have "totalPages rows = 0 \<longleftrightarrow> rows = []"
    using totalPages_bounds [of rows] by auto
  ultimately show ?thesis
    using totalPages_bounds [of rows] by (simp add: rowsPerPage_def totalPages_def)
qed

theorem paginate_slice_totalPages_witness:
  "(0::int) \<le> 2
   \<and> paginatedRows (numbered_rows 15) 2 = map (\<lambda>i. numbered_rows 15 ! i) [10..<15]
   \<and> map rowIndex (paginatedRows (numbered_rows 15) 2) = [10, 11, 12, 13, 14]
   \<and> totalPages (numbered_rows 15) = 2"
proof -
  have len: "length (numbered_rows 15) = 15"
    by (simp add: numbered_rows_def)
  have page: "map rowIndex (paginatedRows (numbered_rows 15) 2) = [10, 11, 12, 13, 14]"
    by code_simp
  have pages: "totalPages (numbered_rows 15) = 2"
    by code_simp
  show ?thesis
    using paginate_slice_totalPages [of 2 "numbered_rows 15"] len page pages
    by (simp add: rowsPerPage_def)
qed

text \<open>
  C3 as stated fails on the empty sequence: the claim gives it one page, the code none.
\<close>

theorem totalPages_empty_counterexample:
  "totalPages ([] :: csv_row list) = 0
   \<and> totalPages ([] :: csv_row list)
       \<noteq> max 1 \<lceil>real (length ([] :: csv_row list)) / real_of_int rowsPerPage\<rceil>"
  by (simp add: totalPages_def)

text \<open>
  C8. The pages 1 to \<open>totalPages\<close> of a row sequence, concatenated, are the sequence
  itself: no row is left out and none occurs twice. The same holds when an empty sequence
  is given one (empty) page.
\<close>

theorem pages_reconstruct:
  "concat (map (paginatedRows rows) [1..totalPages rows]) = rows
   \<and> concat (map (paginatedRows rows) [1..max 1 (totalPages rows)]) = rows"
proof (cases "rows = []")
  case True
  then show ?thesis
    by (simp add: totalPages_def paginatedRows_def Array_slice_def)
next
  case False
  then have "1 \<le> totalPages rows"
    using totalPages_bounds [of rows] by (cases rows) auto
  then show ?thesis
    by (simp add: pages_concat max_def)
qed

theorem pages_reconstruct_witness:
  "concat (map (paginatedRows (numbered_rows 15)) [1..2]) = numbered_rows 15
   \<and> totalPages (numbered_rows 15) = 2"
proof -
  have pages: "totalPages (numbered_rows 15) = 2"
    by code_simp
  show ?thesis
    using pages_reconstruct [of "numbered_rows 15"] pages by simp
qed

subsection \<open>The sort toggle\<close>

text \<open>
  C6. Invoking sort on the column currently sorted ascending flips its direction to
  descending; invoking it again on that column flips back to ascending; invoking sort on
  a column other than the currently sorted one (or with no sort active) always starts that
  column ascending.
\<close>

theorem handleSort_toggle:
  "(sortConfig st = Some \<lparr>key = col, direction = Asc\<rparr> \<longrightarrow>
      sortConfig (handleSort st col) = Some \<lparr>key = col, direction = Desc\<rparr> \<and>
      sortConfig (handleSort (handleSort st col) col) = Some \<lparr>key = col, direction = Asc\<rparr>)
   \<and> (sortConfig st = Some \<lparr>key = col, direction = Desc\<rparr> \<longrightarrow>
      sortConfig (handleSort st col) = Some \<lparr>key = col, direction = Asc\<rparr>)
   \<and> ((\<forall>c. sortConfig st = Some c \<longrightarrow> key c \<noteq> col) \<longrightarrow>
      sortConfig (handleSort st col) = Some \<lparr>key = col, direction = Asc\<rparr>)"
  by (cases "sortConfig st") (auto simp: handleSort_def handleSort_config_def)

theorem handleSort_toggle_witness:
  "sortConfig (handleSort (initial_state [''name'', ''age'']) ''name'')
     = Some \<lparr>key = ''name'', direction = Asc\<rparr>
   \<and> sortConfig (handleSort (handleSort (initial_state [''name'', ''age'']) ''name'') ''name'')
     = Some \<lparr>key = ''name'', direction = Desc\<rparr>
   \<and> sortConfig (handleSort (handleSort (handleSort (initial_state [''name'', ''age''])
        ''name'') ''name'') ''name'')
     = Some \<lparr>key = ''name'', direction = Asc\<rparr>
   \<and> sortConfig (handleSort (handleSort (handleSort (initial_state [''name'', ''age''])
        ''name'') ''name'') ''age'')
     = Some \<lparr>key = ''age'', direction = Asc\<rparr>"
proof -
  let ?s0 = "initial_state [''name'', ''age'']"
  let ?s1 = "handleSort ?s0 ''name''"
  let ?s2 = "handleSort ?s1 ''name''"
  have none: "\<forall>c. sortConfig ?s0 = Some c \<longrightarrow> key c \<noteq> ''name''"
    by (simp add: initial_state_def)
  have asc: "sortConfig ?s1 = Some \<lparr>key = ''name'', direction = Asc\<rparr>"
    using handleSort_toggle [of ?s0 "''name''"] none by blast
  have desc: "sortConfig ?s2 = Some \<lparr>key = ''name'', direction = Desc\<rparr>"
    using handleSort_toggle [of ?s1 "''name''"] asc by blast
  have restored: "sortConfig (handleSort ?s2 ''name'') = Some \<lparr>key = ''name'', direction = Asc\<rparr>"
    using handleSort_toggle [of ?s2 "''name''"] desc by blast
  have other: "\<forall>c. sortConfig ?s2 = Some c \<longrightarrow> key c \<noteq> ''age''"
    by (simp add: desc)
  have age: "sortConfig (handleSort ?s2 ''age'') = Some \<lparr>key = ''age'', direction = Asc\<rparr>"
    using handleSort_toggle [of ?s2 "''age''"] other by blast
  show ?thesis
    using asc desc restored age by simp
qed

subsection \<open>Page navigation\<close>

lemma view_totalPages_currentPage [simp]:
  "view_totalPages lc rows (st\<lparr>currentPage := p\<rparr>) = view_totalPages lc rows st"
  by (simp add: view_totalPages_def view_sortedRows_def)

text \<open>
  C4 (as amended). When the current page lies between 1 and \<open>max 1 totalPages\<close>, it
  still does after \<^verbatim>\<open>Previous\<close>, and after \<^verbatim>\<open>Next\<close> when there is at least one page
  (the handlers themselves, and the buttons with their disabled states); \<^verbatim>\<open>Previous\<close>
  on page 1 and \<^verbatim>\<open>Next\<close> on the last page change nothing and raise nothing. Changing
  the filter text leaves the current page as it is: the page is not clamped to the new
  page count.
\<close>

theorem navigation_keeps_page_in_range:
  assumes "1 \<le> currentPage st"
    and "currentPage st \<le> max 1 (view_totalPages lc rows st)"
  shows "1 \<le> currentPage (clickPrevious st)
       \<and> currentPage (clickPrevious st) \<le> max 1 (view_totalPages lc rows (clickPrevious st))
       \<and> 1 \<le> currentPage (previousPage st)
       \<and> currentPage (previousPage st) \<le> max 1 (view_totalPages lc rows (previousPage st))
       \<and> (1 \<le> view_totalPages lc rows st \<longrightarrow>
            1 \<le> currentPage (clickNext lc rows st)
          \<and> currentPage (clickNext lc rows st)
              \<le> max 1 (view_totalPages lc rows (clickNext lc rows st))
          \<and> 1 \<le> currentPage (nextPage (view_totalPages lc rows st) st)
          \<and> currentPage (nextPage (view_totalPages lc rows st) st)
              \<le> max 1 (view_totalPages lc rows (nextPage (view_totalPages lc rows st) st)))
       \<and> (currentPage st = 1 \<longrightarrow> previousPage st = st \<and> clickPrevious st = st)
       \<and> (currentPage st = view_totalPages lc rows st \<longrightarrow>
            nextPage (view_totalPages lc rows st) st = st \<and> clickNext lc rows st = st)
       \<and> currentPage (setFilterText st text) = currentPage st"
  using assms
  by (auto simp: clickPrevious_def clickNext_def previousPage_def nextPage_def
      setFilterText_def Let_def)

theorem navigation_keeps_page_in_range_witness:
  "1 \<le> currentPage (initial_state [''name''])
   \<and> currentPage (initial_state [''name''])
       \<le> max 1 (view_totalPages codeUnitCompare (numbered_rows 15) (initial_state [''name'']))
   \<and> 1 \<le> view_totalPages codeUnitCompare (numbered_rows 15) (initial_state [''name''])
   \<and> clickPrevious (initial_state [''name'']) = initial_state [''name'']
   \<and> currentPage (clickNext codeUnitCompare (numbered_rows 15) (initial_state [''name''])) = 2
   \<and> view_totalPages codeUnitCompare (numbered_rows 15)
        (clickNext codeUnitCompare (numbered_rows 15) (initial_state [''name''])) = 2
   \<and> clickNext codeUnitCompare (numbered_rows 15)
        (clickNext codeUnitCompare (numbered_rows 15) (initial_state [''name'']))
       = clickNext codeUnitCompare (numbered_rows 15) (initial_state [''name''])"
proof -
  let ?s0 = "initial_state [''name'']"
  let ?s1 = "clickNext codeUnitCompare (numbered_rows 15) ?s0"
  have first: "currentPage ?s0 = 1"
    by (simp add: initial_state_def)
  have lo: "1 \<le> currentPage ?s0"
    by (simp add: first)
  have hi: "currentPage ?s0 \<le> max 1 (view_totalPages codeUnitCompare (numbered_rows 15) ?s0)"
    by (simp add: first)
  have pages: "1 \<le> view_totalPages codeUnitCompare (numbered_rows 15) ?s0"
    by code_simp
  have second: "currentPage ?s1 = 2"
    by code_simp
  have pages': "view_totalPages codeUnitCompare (numbered_rows 15) ?s1 = 2"
    by code_simp
  have lo': "1 \<le> currentPage ?s1"
    by (simp add: second)
  have hi': "currentPage ?s1 \<le> max 1 (view_totalPages codeUnitCompare (numbered_rows 15) ?s1)"
    by (simp add: second pages')
  have "clickPrevious ?s0 = ?s0"
    using navigation_keeps_page_in_range [OF lo hi] first by blast
  moreover have "clickNext codeUnitCompare (numbered_rows 15) ?s1 = ?s1"
    using navigation_keeps_page_in_range [OF lo' hi'] second pages' by simp
  ultimately show ?thesis
    using lo hi pages second pages' by simp
qed

text \<open>
  C4 as stated fails when the filter text changes: with 11 rows, go to page 2, then type a
  filter that one row matches. One page is left and the current page is still 2.
\<close>

theorem filter_change_page_counterexample:
  "currentPage second_page_then_filtered = 2
   \<and> view_totalPages codeUnitCompare (numbered_rows 11) second_page_then_filtered = 1
   \<and> \<not> (currentPage second_page_then_filtered
          \<le> max 1 (view_totalPages codeUnitCompare (numbered_rows 11)
                second_page_then_filtered))"
  by code_simp

subsection \<open>Filtering\<close>


lemma includes_str_empty [simp]: "includes_str s []"
  by (cases s) simp_all






subsection \<open>Committing an edit\<close>

lemma map_of_object_set: "map_of (object_set obj k v) = (map_of obj)(k \<mapsto> v)"
  by (induction obj k v rule: object_set.induct) auto

text \<open>
  C2 (as amended). For an active edit whose row id is present in the row set, committing
  calls the row-update interface exactly once, with the row id and the field map of the
  (first) row with that id overlaid with the pending value at the edited column. The
  handler awaits the call: when it succeeds the edit state becomes idle; when it fails the
  handler fails with the same error and the edit stays active.
\<close>

theorem commit_invokes_update_once:
  assumes "editingCell st = Some cell" and "rowId cell \<in> row_id ` set rows"
  shows "\<exists>row fullFieldMap.
           find (\<lambda>r. row_id r = rowId cell) rows = Some row
         \<and> row \<in> set rows \<and> row_id row = rowId cell
         \<and> map_of fullFieldMap = (map_of (rowData row))(column cell \<mapsto> editValue st)
         \<and> update_calls (handleCellSave rows onRowUpdate st) = [(rowId cell, fullFieldMap)]
         \<and> (onRowUpdate (rowId cell) fullFieldMap = None \<longrightarrow>
              rejected (handleCellSave rows onRowUpdate st) = None
            \<and> state_after (handleCellSave rows onRowUpdate st) = st\<lparr>editingCell := None\<rparr>)
         \<and> (\<forall>e. onRowUpdate (rowId cell) fullFieldMap = Some e \<longrightarrow>
              rejected (handleCellSave rows onRowUpdate st) = Some e
            \<and> state_after (handleCellSave rows onRowUpdate st) = st)"
proof -
  obtain row where found: "find (\<lambda>r. row_id r = rowId cell) rows = Some row"
    using assms(2) by (cases "find (\<lambda>r. row_id r = rowId cell) rows") (auto simp: find_None_iff)
  then have row: "row \<in> set rows" "row_id row = rowId cell"
    by (auto simp: find_Some_iff)
  show ?thesis
    using assms(1) found row
    by (intro exI [of _ row] exI [of _ "object_set (rowData row) (column cell) (editValue st)"])
      (auto simp: handleCellSave_def map_of_object_set Let_def split: option.splits)
qed

theorem commit_invokes_update_once_witness:
  "editingCell editing_age = Some \<lparr>rowId = ''r2'', column = ''age''\<rparr>
   \<and> ''r2'' \<in> row_id ` set [bob, al]
   \<and> update_calls (handleCellSave [bob, al] (\<lambda>_ _. None) editing_age)
       = [(''r2'', [(''name'', ''Al''), (''age'', ''26'')])]
   \<and> state_after (handleCellSave [bob, al] (\<lambda>_ _. None) editing_age)
       = editing_age\<lparr>editingCell := None\<rparr>
   \<and> rejected (handleCellSave [bob, al] (\<lambda>_ _. Some (Error ''Row not found'')) editing_age)
       = Some (Error ''Row not found'')
   \<and> state_after (handleCellSave [bob, al] (\<lambda>_ _. Some (Error ''Row not found'')) editing_age)
       = editing_age"
proof -
  have h1: "editingCell editing_age = Some \<lparr>rowId = ''r2'', column = ''age''\<rparr>"
    by (simp add: editing_age_def handleCellEdit_def setEditValue_def)
  have h2: "rowId \<lparr>rowId = ''r2'', column = ''age''\<rparr> \<in> row_id ` set [bob, al]"
    by (simp add: al_def)
  have calls: "update_calls (handleCellSave [bob, al] (\<lambda>_ _. None) editing_age)
       = [(''r2'', [(''name'', ''Al''), (''age'', ''26'')])]"
    by code_simp
  from commit_invokes_update_once [OF h1 h2, of "\<lambda>_ _. None"]
  have ok: "state_after (handleCellSave [bob, al] (\<lambda>_ _. None) editing_age)
       = editing_age\<lparr>editingCell := None\<rparr>"
    by auto
  from commit_invokes_update_once [OF h1 h2, of "\<lambda>_ _. Some (Error ''Row not found'')"]
  have failed: "rejected (handleCellSave [bob, al] (\<lambda>_ _. Some (Error ''Row not found'')) editing_age)
       = Some (Error ''Row not found'')
     \<and> state_after (handleCellSave [bob, al] (\<lambda>_ _. Some (Error ''Row not found'')) editing_age)
       = editing_age"
    by auto
  show ?thesis
    using h1 h2 calls ok failed by simp
qed

text \<open>
  C2 as stated fails when the update fails. The row was deleted on the server, the
  viewer still shows it; the commit calls the update once, the update fails with
  \<^verbatim>\<open>Row not found\<close>, and the edit is still active afterwards.
\<close>

theorem commit_failure_counterexample:
  "update_calls (handleCellSave [bob, al]
      (CsvViewer_onRowUpdate (Some \<lparr>user_id = 7\<rparr>) db_without_al) editing_age)
     = [(''r2'', [(''name'', ''Al''), (''age'', ''26'')])]
   \<and> rejected (handleCellSave [bob, al]
      (CsvViewer_onRowUpdate (Some \<lparr>user_id = 7\<rparr>) db_without_al) editing_age)
     = Some (Error ''Row not found'')
   \<and> editingCell (state_after (handleCellSave [bob, al]
      (CsvViewer_onRowUpdate (Some \<lparr>user_id = 7\<rparr>) db_without_al) editing_age))
     = Some \<lparr>rowId = ''r2'', column = ''age''\<rparr>
   \<and> editingCell (state_after (handleCellSave [bob, al]
      (CsvViewer_onRowUpdate (Some \<lparr>user_id = 7\<rparr>) db_without_al) editing_age)) \<noteq> None"
  by code_simp

text \<open>
  C10. A commit with an active edit whose row id is not among the supplied rows makes no
  row-update call and leaves the whole view state as it was, the edit session included;
  a commit with no active edit does the same.
\<close>

theorem commit_without_row_is_noop:
  assumes "editingCell st = None
         \<or> (\<exists>cell. editingCell st = Some cell \<and> rowId cell \<notin> row_id ` set rows)"
  shows "handleCellSave rows onRowUpdate st
           = \<lparr>update_calls = [], rejected = None, state_after = st\<rparr>"
proof -
  have "find (\<lambda>r. row_id r = rid) rows = None" if "rid \<notin> row_id ` set rows" for rid
    using that by (auto simp: find_None_iff)
  then show ?thesis
    using assms by (auto simp: handleCellSave_def)
qed

theorem commit_without_row_is_noop_witness:
  "editingCell editing_age = Some \<lparr>rowId = ''r2'', column = ''age''\<rparr>
   \<and> ''r2'' \<notin> row_id ` set [bob]
   \<and> handleCellSave [bob] (\<lambda>_ _. None) editing_age
       = \<lparr>update_calls = [], rejected = None, state_after = editing_age\<rparr>
   \<and> editingCell (initial_state [''name'', ''age'']) = None
   \<and> handleCellSave [bob, al] (\<lambda>_ _. None) (initial_state [''name'', ''age''])
       = \<lparr>update_calls = [], rejected = None, state_after = initial_state [''name'', ''age'']\<rparr>"
proof -
  have h1: "editingCell editing_age = Some \<lparr>rowId = ''r2'', column = ''age''\<rparr>"
    by (simp add: editing_age_def handleCellEdit_def setEditValue_def)
  have h2: "''r2'' \<notin> row_id ` set [bob]"
    by (simp add: bob_def)
  have h3: "editingCell (initial_state [''name'', ''age'']) = None"
    by (simp add: initial_state_def)
  have stale: "editingCell editing_age = None
      \<or> (\<exists>cell. editingCell editing_age = Some cell \<and> rowId cell \<notin> row_id ` set [bob])"
    using h1 h2 by simp
  have idle: "editingCell (initial_state [''name'', ''age'']) = None
      \<or> (\<exists>cell. editingCell (initial_state [''name'', ''age'']) = Some cell
            \<and> rowId cell \<notin> row_id ` set [bob, al])"
    using h3 by simp
  show ?thesis
    using commit_without_row_is_noop [OF stale, of "\<lambda>_ _. None"]
      commit_without_row_is_noop [OF idle, of "\<lambda>_ _. None"] h1 h2 h3
    by simp
qed

subsection \<open>Reordering columns\<close>

lemma splice_remove_valid:
  assumes "i < length xs"
  shows "Array_splice xs (int i) 1 [] = ([xs ! i], take i xs @ drop (Suc i) xs)"
proof -
  have k: "relativeIndex (int i) (length xs) = i"
    using assms by (simp add: relativeIndex_def)
  have d: "min 1 (length xs - i) = 1"
    using assms by simp
  have "take 1 (drop i xs) = [xs ! i]"
    using assms by (simp add: take_Suc_conv_app_nth)
  then show ?thesis
    by (simp only: Array_splice_def Let_def k d) simp
qed

lemma splice_insert_valid:
  assumes "j \<le> length ys"
  shows "Array_splice ys (int j) 0 [x] = ([], take j ys @ x # drop j ys)"
  using assms by (simp add: Array_splice_def relativeIndex_def Let_def)

lemma mset_remove_nth:
  assumes "i < length xs"
  shows "mset (take i xs @ drop (Suc i) xs) + {#xs ! i#} = mset xs"
proof -
  have "mset xs = mset (take i xs @ xs ! i # drop (Suc i) xs)"
    using assms by (simp only: id_take_nth_drop [symmetric])
  then show ?thesis by simp
qed

lemma mset_insert_at: "mset (take j ys @ x # drop j ys) = mset ys + {#x#}"
proof -
  have "mset (take j ys @ x # drop j ys) = mset (take j ys @ drop j ys) + {#x#}"
    by (simp only: mset_append mset.simps) simp
  then show ?thesis by simp
qed

lemma reorder_valid:
  assumes "i < length (columnOrder st)" and "j < length (columnOrder st)"
  shows "handleColumnReorder st (int i) (int j) =
     Inr (st\<lparr>columnOrder :=
        take j (take i (columnOrder st) @ drop (Suc i) (columnOrder st))
        @ columnOrder st ! i
        # drop j (take i (columnOrder st) @ drop (Suc i) (columnOrder st))\<rparr>)"
proof -
  let ?xs = "columnOrder st"
  let ?rest = "take i ?xs @ drop (Suc i) ?xs"
  have "j \<le> length ?rest"
    using assms by simp
  then have step2: "Array_splice ?rest (int j) 0 [?xs ! i] = ([], take j ?rest @ ?xs ! i # drop j ?rest)"
    by (rule splice_insert_valid)
  show ?thesis
    unfolding handleColumnReorder_def Let_def splice_remove_valid [OF assms(1)]
    by (simp only: prod.case list.case step2)
qed

text \<open>
  C7 (as amended). When both indices are positions of the current column order, the
  element at \<open>fromIndex\<close> is removed and put back at \<open>toIndex\<close>: the result is a
  permutation of the input, it holds the moved element at \<open>toIndex\<close>, and without that
  element it is the input without its element at \<open>fromIndex\<close>, so all other elements keep
  their relative order. The handler validates no index and never fails: for any pair of
  indices it returns a state.
\<close>

theorem reorder_moves_one_column:
  assumes "0 \<le> fromIndex" and "fromIndex < int (length (columnOrder st))"
    and "0 \<le> toIndex" and "toIndex < int (length (columnOrder st))"
  shows "(\<exists>newOrder.
           handleColumnReorder st fromIndex toIndex = Inr (st\<lparr>columnOrder := newOrder\<rparr>)
         \<and> length newOrder = length (columnOrder st)
         \<and> newOrder ! nat toIndex = columnOrder st ! nat fromIndex
         \<and> take (nat toIndex) newOrder @ drop (Suc (nat toIndex)) newOrder
             = take (nat fromIndex) (columnOrder st) @ drop (Suc (nat fromIndex)) (columnOrder st)
         \<and> mset newOrder = mset (columnOrder st))
       \<and> (\<forall>dragIndex dropIndex. \<exists>st'. handleColumnReorder st dragIndex dropIndex = Inr st')"
proof
  define xs where "xs = columnOrder st"
  define i where "i = nat fromIndex"
  define j where "j = nat toIndex"
  define rest where "rest = take i xs @ drop (Suc i) xs"
  define new where "new = take j rest @ xs ! i # drop j rest"
  have i: "i < length xs" and fi: "fromIndex = int i"
    using assms by (simp_all add: i_def xs_def)
  have j: "j < length xs" and tj: "toIndex = int j"
    using assms by (simp_all add: j_def xs_def)
  have len_rest: "length rest = length xs - 1"
    using i by (simp add: rest_def)
  have j_rest: "j \<le> length rest"
    using j len_rest by simp
  have run: "handleColumnReorder st fromIndex toIndex = Inr (st\<lparr>columnOrder := new\<rparr>)"
    using reorder_valid [of i st j] i j
    by (simp only: fi tj new_def rest_def xs_def)
  have len: "length new = length xs"
    using len_rest i j_rest by (simp add: new_def)
  have at: "new ! j = xs ! i"
    using j_rest by (simp add: new_def nth_append)
  have others: "take j new @ drop (Suc j) new = rest"
    using j_rest by (simp add: new_def)
  have perm: "mset new = mset xs"
    using mset_remove_nth [OF i] by (simp only: new_def mset_insert_at rest_def)
  have "handleColumnReorder st fromIndex toIndex = Inr (st\<lparr>columnOrder := new\<rparr>)
      \<and> length new = length (columnOrder st)
      \<and> new ! nat toIndex = columnOrder st ! nat fromIndex
      \<and> take (nat toIndex) new @ drop (Suc (nat toIndex)) new
             = take (nat fromIndex) (columnOrder st) @ drop (Suc (nat fromIndex)) (columnOrder st)
      \<and> mset new = mset (columnOrder st)"
    using run len at others perm
    by (simp only: rest_def xs_def i_def j_def simp_thms)
  then show "\<exists>newOrder.
           handleColumnReorder st fromIndex toIndex = Inr (st\<lparr>columnOrder := newOrder\<rparr>)
         \<and> length newOrder = length (columnOrder st)
         \<and> newOrder ! nat toIndex = columnOrder st ! nat fromIndex
         \<and> take (nat toIndex) newOrder @ drop (Suc (nat toIndex)) newOrder
             = take (nat fromIndex) (columnOrder st) @ drop (Suc (nat fromIndex)) (columnOrder st)
         \<and> mset newOrder = mset (columnOrder st)"
    by (rule exI)
next
  show "\<forall>dragIndex dropIndex. \<exists>st'. handleColumnReorder st dragIndex dropIndex = Inr st'"
    by (simp add: handleColumnReorder_def Let_def split: prod.splits)
qed

theorem reorder_moves_one_column_witness:
  "(0::int) \<le> 0 \<and> 0 < int (length (columnOrder (initial_state [''name'', ''age'', ''city''])))
   \<and> (0::int) \<le> 2 \<and> 2 < int (length (columnOrder (initial_state [''name'', ''age'', ''city''])))
   \<and> handleColumnReorder (initial_state [''name'', ''age'', ''city'']) 0 2
       = Inr ((initial_state [''name'', ''age'', ''city''])
                \<lparr>columnOrder := [Some ''age'', Some ''city'', Some ''name'']\<rparr>)
   \<and> (\<exists>st'. handleColumnReorder (initial_state [''name'', ''age'', ''city'']) 7 (- 4) = Inr st')"
proof -
  have len: "length (columnOrder (initial_state [''name'', ''age'', ''city''])) = 3"
    by (simp add: initial_state_def)
  have h1: "(0::int) \<le> 0" and h3: "(0::int) \<le> 2"
    by simp_all
  have h2: "0 < int (length (columnOrder (initial_state [''name'', ''age'', ''city''])))"
    and h4: "2 < int (length (columnOrder (initial_state [''name'', ''age'', ''city''])))"
    by (simp_all add: len)
  have moved: "handleColumnReorder (initial_state [''name'', ''age'', ''city'']) 0 2
       = Inr ((initial_state [''name'', ''age'', ''city''])
                \<lparr>columnOrder := [Some ''age'', Some ''city'', Some ''name'']\<rparr>)"
    by code_simp
  from reorder_moves_one_column [OF h1 h2 h3 h4]
  have "\<exists>st'. handleColumnReorder (initial_state [''name'', ''age'', ''city'']) 7 (- 4) = Inr st'"
    by blast
  then show ?thesis
    using h2 h4 moved by simp
qed

text \<open>
  C7 as stated fails on an index that is no position: with two columns, a drag index of 5
  removes nothing, the handler returns normally, and the column order has grown by an
  \<^verbatim>\<open>undefined\<close> entry. No \<^verbatim>\<open>InvalidIndex\<close> failure exists in the code.
\<close>

theorem reorder_invalid_index_counterexample:
  "\<not> 5 < int (length (columnOrder (initial_state [''name'', ''age''])))
   \<and> handleColumnReorder (initial_state [''name'', ''age'']) 5 0
       = Inr ((initial_state [''name'', ''age''])
                \<lparr>columnOrder := [None, Some ''name'', Some ''age'']\<rparr>)
   \<and> \<not> isl (handleColumnReorder (initial_state [''name'', ''age'']) 5 0)"
  by code_simp

subsection \<open>The row-update operation\<close>

lemma find_by_key:
  "x \<in> set xs \<Longrightarrow> distinct (map f xs) \<Longrightarrow> find (\<lambda>y. f y = f x) xs = Some x"
  by (induction xs) (auto simp: rev_image_eqI)

lemma find_after_update:
  "find (\<lambda>r. row_id r = rid) rows = Some row \<Longrightarrow>
   find (\<lambda>r. row_id r = rid)
     (map (\<lambda>r. if row_id r = rid then r\<lparr>rowData := newData\<rparr> else r) rows)
   = Some (row\<lparr>rowData := newData\<rparr>)"
  by (induction rows) (auto split: if_splits)

lemma others_after_update:
  "filter (\<lambda>r. row_id r \<noteq> rid)
     (map (\<lambda>r. if row_id r = rid then r\<lparr>rowData := newData\<rparr> else r) rows)
   = filter (\<lambda>r. row_id r \<noteq> rid) rows"
  by (induction rows) auto

lemma findUnique_missing:
  "rid \<notin> row_id ` set (CsvRow_table db) \<Longrightarrow> findUnique_with_csvFile db rid = None"
  by (auto simp: findUnique_with_csvFile_def find_None_iff split: option.splits)

lemma findUnique_found:
  assumes "distinct (map row_id (CsvRow_table db))"
    and "distinct (map file_id (CsvFile_table db))"
    and "row \<in> set (CsvRow_table db)"
    and "parent \<in> set (CsvFile_table db)" and "file_id parent = csvFileId row"
  shows "findUnique_with_csvFile db (row_id row) = Some (row, Some parent)"
proof -
  have "find (\<lambda>r. row_id r = row_id row) (CsvRow_table db) = Some row"
    using assms(3) assms(1) by (rule find_by_key)
  moreover have "find (\<lambda>f. file_id f = file_id parent) (CsvFile_table db) = Some parent"
    using assms(4) assms(2) by (rule find_by_key)
  ultimately show ?thesis
    by (simp add: findUnique_with_csvFile_def assms(5))
qed

text \<open>
  C9. \<^verbatim>\<open>updateCsvRow\<close>: without a caller identity it fails with \<^verbatim>\<open>Not authorized\<close>
  and has made no database access; with one, it fails with \<^verbatim>\<open>Row not found\<close> when no
  row has the id, with \<^verbatim>\<open>Not authorized to modify this row\<close> when the row's parent file
  belongs to another user, and otherwise it stores the new field map as the row's data
  (other rows and the files untouched) and returns the updated row. Row ids and file ids
  are primary keys.
\<close>

theorem updateCsvRow_outcomes:
  assumes "distinct (map row_id (CsvRow_table db))"
    and "distinct (map file_id (CsvFile_table db))"
  shows "updateCsvRow None db rid newData
           = \<lparr>result = Inl (Error ''Not authorized''), database_after = db, accesses = []\<rparr>
       \<and> (rid \<notin> row_id ` set (CsvRow_table db) \<longrightarrow>
            result (updateCsvRow (Some u) db rid newData) = Inl (Error ''Row not found'')
          \<and> database_after (updateCsvRow (Some u) db rid newData) = db)
       \<and> (\<forall>row parent.
            row \<in> set (CsvRow_table db) \<and> row_id row = rid
          \<and> parent \<in> set (CsvFile_table db) \<and> file_id parent = csvFileId row \<longrightarrow>
            (userId parent \<noteq> user_id u \<longrightarrow>
               result (updateCsvRow (Some u) db rid newData)
                 = Inl (Error ''Not authorized to modify this row'')
             \<and> database_after (updateCsvRow (Some u) db rid newData) = db)
          \<and> (userId parent = user_id u \<longrightarrow>
               result (updateCsvRow (Some u) db rid newData) = Inr (row\<lparr>rowData := newData\<rparr>)
             \<and> find (\<lambda>r. row_id r = rid)
                 (CsvRow_table (database_after (updateCsvRow (Some u) db rid newData)))
                 = Some (row\<lparr>rowData := newData\<rparr>)
             \<and> filter (\<lambda>r. row_id r \<noteq> rid)
                 (CsvRow_table (database_after (updateCsvRow (Some u) db rid newData)))
                 = filter (\<lambda>r. row_id r \<noteq> rid) (CsvRow_table db)
             \<and> CsvFile_table (database_after (updateCsvRow (Some u) db rid newData))
                 = CsvFile_table db))"
proof -
  have unauth: "updateCsvRow None db rid newData
      = \<lparr>result = Inl (Error ''Not authorized''), database_after = db, accesses = []\<rparr>"
    by (simp add: updateCsvRow_def)
  have missing: "result (updateCsvRow (Some u) db rid newData) = Inl (Error ''Row not found'')
      \<and> database_after (updateCsvRow (Some u) db rid newData) = db"
    if "rid \<notin> row_id ` set (CsvRow_table db)"
    using findUnique_missing [OF that] by (simp add: updateCsvRow_def)
  have present: "(userId parent \<noteq> user_id u \<longrightarrow>
               result (updateCsvRow (Some u) db rid newData)
                 = Inl (Error ''Not authorized to modify this row'')
             \<and> database_after (updateCsvRow (Some u) db rid newData) = db)
          \<and> (userId parent = user_id u \<longrightarrow>
               result (updateCsvRow (Some u) db rid newData) = Inr (row\<lparr>rowData := newData\<rparr>)
             \<and> find (\<lambda>r. row_id r = rid)
                 (CsvRow_table (database_after (updateCsvRow (Some u) db rid newData)))
                 = Some (row\<lparr>rowData := newData\<rparr>)
             \<and> filter (\<lambda>r. row_id r \<noteq> rid)
                 (CsvRow_table (database_after (updateCsvRow (Some u) db rid newData)))
                 = filter (\<lambda>r. row_id r \<noteq> rid) (CsvRow_table db)
             \<and> CsvFile_table (database_after (updateCsvRow (Some u) db rid newData))
                 = CsvFile_table db)"
    if h: "row \<in> set (CsvRow_table db) \<and> row_id row = rid
          \<and> parent \<in> set (CsvFile_table db) \<and> file_id parent = csvFileId row"
    for row parent
  proof -
    have frow: "find (\<lambda>r. row_id r = rid) (CsvRow_table db) = Some row"
      using find_by_key [of row "CsvRow_table db" row_id] h assms(1) by simp
    have found: "findUnique_with_csvFile db rid = Some (row, Some parent)"
      using findUnique_found [OF assms, of row parent] h by simp
    show ?thesis
      using find_after_update [OF frow, of newData]
      by (simp add: updateCsvRow_def found update_rowData_def others_after_update)
  qed
  show ?thesis
    using unauth missing present by blast
qed

theorem updateCsvRow_outcomes_witness:
  "distinct (map row_id (CsvRow_table db_people))
   \<and> distinct (map file_id (CsvFile_table db_people))
   \<and> al \<in> set (CsvRow_table db_people) \<and> row_id al = ''r2''
   \<and> people_file \<in> set (CsvFile_table db_people) \<and> file_id people_file = csvFileId al
   \<and> userId people_file = user_id \<lparr>user_id = 7\<rparr>
   \<and> userId people_file \<noteq> user_id \<lparr>user_id = 8\<rparr>
   \<and> ''r9'' \<notin> row_id ` set (CsvRow_table db_people)
   \<and> result (updateCsvRow (Some \<lparr>user_id = 7\<rparr>) db_people ''r2'' [(''age'', ''26'')])
       = Inr (al\<lparr>rowData := [(''age'', ''26'')]\<rparr>)
   \<and> result (updateCsvRow (Some \<lparr>user_id = 8\<rparr>) db_people ''r2'' [(''age'', ''26'')])
       = Inl (Error ''Not authorized to modify this row'')
   \<and> result (updateCsvRow (Some \<lparr>user_id = 7\<rparr>) db_people ''r9'' [(''age'', ''26'')])
       = Inl (Error ''Row not found'')
   \<and> updateCsvRow None db_people ''r2'' [(''age'', ''26'')]
       = \<lparr>result = Inl (Error ''Not authorized''), database_after = db_people, accesses = []\<rparr>"
proof -
  have keys: "distinct (map row_id (CsvRow_table db_people))"
    "distinct (map file_id (CsvFile_table db_people))"
    by (simp_all add: db_people_def bob_def al_def)
  have there: "al \<in> set (CsvRow_table db_people) \<and> row_id al = ''r2''
      \<and> people_file \<in> set (CsvFile_table db_people) \<and> file_id people_file = csvFileId al"
    by (simp add: db_people_def al_def people_file_def)
  have owner: "userId people_file = user_id \<lparr>user_id = 7\<rparr>"
    by (simp add: people_file_def)
  have stranger: "userId people_file \<noteq> user_id \<lparr>user_id = 8\<rparr>"
    by (simp add: people_file_def)
  have absent: "''r9'' \<notin> row_id ` set (CsvRow_table db_people)"
    by (simp add: db_people_def bob_def al_def)
  have own: "result (updateCsvRow (Some \<lparr>user_id = 7\<rparr>) db_people ''r2'' [(''age'', ''26'')])
       = Inr (al\<lparr>rowData := [(''age'', ''26'')]\<rparr>)"
    using updateCsvRow_outcomes [where rid = "''r2''" and newData = "[(''age'', ''26'')]"
        and u = "\<lparr>user_id = 7\<rparr>", OF keys] there owner by blast
  have other: "result (updateCsvRow (Some \<lparr>user_id = 8\<rparr>) db_people ''r2'' [(''age'', ''26'')])
       = Inl (Error ''Not authorized to modify this row'')"
    using updateCsvRow_outcomes [where rid = "''r2''" and newData = "[(''age'', ''26'')]"
        and u = "\<lparr>user_id = 8\<rparr>", OF keys] there stranger by blast
  have gone: "result (updateCsvRow (Some \<lparr>user_id = 7\<rparr>) db_people ''r9'' [(''age'', ''26'')])
       = Inl (Error ''Row not found'')"
    using updateCsvRow_outcomes [where rid = "''r9''" and newData = "[(''age'', ''26'')]"
        and u = "\<lparr>user_id = 7\<rparr>", OF keys] absent by blast
  have anon: "updateCsvRow None db_people ''r2'' [(''age'', ''26'')]
       = \<lparr>result = Inl (Error ''Not authorized''), database_after = db_people, accesses = []\<rparr>"
    using updateCsvRow_outcomes [where rid = "''r2''" and newData = "[(''age'', ''26'')]"
        and u = "\<lparr>user_id = 7\<rparr>", OF keys] by blast
  show ?thesis
    using keys there owner stranger absent own other gone anon by simp
qed

subsection \<open>Sorting\<close>

text \<open>What follows from a comparator being consistent.\<close>

lemma consistent_refl: "consistent_comparator c \<Longrightarrow> c a a = 0"
  unfolding consistent_comparator_def by (metis less_asym linorder_cases)

lemma consistent_total: "consistent_comparator c \<Longrightarrow> \<not> c a b \<le> 0 \<Longrightarrow> c b a \<le> 0"
  unfolding consistent_comparator_def by (metis less_le_not_le linorder_le_cases order.strict_iff_order)

lemma consistent_trans:
  "consistent_comparator c \<Longrightarrow> c a b \<le> 0 \<Longrightarrow> c b d \<le> 0 \<Longrightarrow> c a d \<le> 0"
  unfolding consistent_comparator_def by blast

lemma consistent_eq_iff:
  "consistent_comparator c \<Longrightarrow> c a b = 0 \<longleftrightarrow> c a b \<le> 0 \<and> c b a \<le> 0"
  unfolding consistent_comparator_def by (metis less_le_not_le linorder_not_le order_le_less)

lemma consistent_eq_sym: "consistent_comparator c \<Longrightarrow> c a b = 0 \<longleftrightarrow> c b a = 0"
  using consistent_eq_iff [of c a b] consistent_eq_iff [of c b a] by blast



lemma set_insert_sorted: "set (insert_sorted c x ys) = insert x (set ys)"
  by (induction ys) auto



lemma Array_sort_Cons: "Array_sort c (x # xs) = insert_sorted c x (Array_sort c xs)"
  by (simp add: Array_sort_def)

lemma Array_sort_Nil: "Array_sort c [] = []"
  by (simp add: Array_sort_def)

lemma sorted_insert_sorted:
  assumes "consistent_comparator c" and "sorted_wrt (\<lambda>a b. c a b \<le> 0) ys"
  shows "sorted_wrt (\<lambda>a b. c a b \<le> 0) (insert_sorted c x ys)"
  using assms(2)
proof (induction ys)
  case Nil
  show ?case by simp
next
  case (Cons y ys)
  show ?case
  proof (cases "c x y \<le> 0")
    case True
    then have "\<forall>b\<in>set ys. c x b \<le> 0"
      using Cons.prems consistent_trans [OF assms(1)] by auto
    with True Cons.prems show ?thesis by simp
  next
    case False
    then have "c y x \<le> 0"
      using consistent_total [OF assms(1)] by blast
    with False Cons show ?thesis
      by (simp add: set_insert_sorted)
  qed
qed

lemma sorted_Array_sort:
  "consistent_comparator c \<Longrightarrow> sorted_wrt (\<lambda>a b. c a b \<le> 0) (Array_sort c xs)"
  by (induction xs) (simp_all add: Array_sort_Nil Array_sort_Cons sorted_insert_sorted)

lemma filter_insert_sorted:
  assumes "\<And>a b. P a \<Longrightarrow> P b \<Longrightarrow> c a b \<le> 0"
  shows "filter P (insert_sorted c x ys) = filter P (x # ys)"
proof (induction ys)
  case Nil
  show ?case by simp
next
  case (Cons y ys)
  show ?case
  proof (cases "c x y \<le> 0")
    case True
    then show ?thesis by simp
  next
    case False
    then have "\<not> (P x \<and> P y)"
      using assms by blast
    with False Cons show ?thesis by auto
  qed
qed

lemma filter_Array_sort:
  assumes "\<And>a b. P a \<Longrightarrow> P b \<Longrightarrow> c a b \<le> 0"
  shows "filter P (Array_sort c xs) = filter P xs"
proof (induction xs)
  case Nil
  show ?case by (simp add: Array_sort_Nil)
next
  case (Cons x xs)
  have "filter P (Array_sort c (x # xs)) = filter P (x # Array_sort c xs)"
    using assms by (simp only: Array_sort_Cons filter_insert_sorted)
  with Cons show ?case by simp
qed


lemma sorted_stable_unique:
  assumes "consistent_comparator c"
    and "sorted_wrt (\<lambda>a b. c a b \<le> 0) ys" and "sorted_wrt (\<lambda>a b. c a b \<le> 0) zs"
    and "\<And>k. filter (\<lambda>x. c x k = 0) ys = filter (\<lambda>x. c x k = 0) zs"
  shows "ys = zs"
  using assms(2-)
proof (induction ys arbitrary: zs)
  case Nil
  show ?case
  proof (cases zs)
    case Nil
    then show ?thesis by simp
  next
    case (Cons z zs')
    have "filter (\<lambda>x. c x z = 0) [] = filter (\<lambda>x. c x z = 0) zs"
      using Nil.prems(3) by blast
    then show ?thesis
      using Cons consistent_refl [OF assms(1)] by simp
  qed
next
  case (Cons y ys)
  have yy: "c y y = 0"
    using consistent_refl [OF assms(1)] .
  obtain z zs' where zs: "zs = z # zs'"
  proof (cases zs)
    case Nil
    have "filter (\<lambda>x. c x y = 0) (y # ys) = filter (\<lambda>x. c x y = 0) zs"
      using Cons.prems(3) by blast
    then show ?thesis using Nil yy by simp
  next
    case (Cons z zs')
    then show ?thesis using that by blast
  qed
  have zz: "c z z = 0"
    using consistent_refl [OF assms(1)] .
  have "y \<in> set (filter (\<lambda>x. c x y = 0) (y # ys))"
    using yy by simp
  then have "y \<in> set (filter (\<lambda>x. c x y = 0) zs)"
    by (simp only: Cons.prems(3) [of y])
  then have "y \<in> set zs"
    by (simp only: set_filter) simp
  then have "y \<in> set (z # zs')"
    by (simp only: zs)
  then have zy: "c z y \<le> 0"
    using Cons.prems(2) zs zz by auto
  have "z \<in> set (filter (\<lambda>x. c x z = 0) zs)"
    using zz zs by simp
  then have "z \<in> set (filter (\<lambda>x. c x z = 0) (y # ys))"
    by (simp only: Cons.prems(3) [of z])
  then have "z \<in> set (y # ys)"
    by (simp only: set_filter) simp
  then have yz: "c y z \<le> 0"
    using Cons.prems(1) yy by auto
  have "c z y = 0"
    using zy yz consistent_eq_iff [OF assms(1)] by blast
  then have head: "y = z"
    using Cons.prems(3) [of y] zs yy by simp
  have tails: "filter (\<lambda>x. c x k = 0) ys = filter (\<lambda>x. c x k = 0) zs'" for k
    using Cons.prems(3) [of k] zs head by (cases "c z k = 0") simp_all
  have "ys = zs'"
    using Cons.IH [of zs'] Cons.prems(1) Cons.prems(2) zs tails by simp
  with head zs show ?case by simp
qed





lemma equal_rows_mutually_le:
  assumes "consistent_comparator c" and "c a k = 0" and "c b k = 0"
  shows "c a b \<le> 0" and "c b a \<le> 0"
proof -
  have "c k a = 0" "c k b = 0"
    using assms consistent_eq_sym [OF assms(1)] by blast+
  then show "c a b \<le> 0" "c b a \<le> 0"
    using assms consistent_trans [OF assms(1), of a k b]
      consistent_trans [OF assms(1), of b k a] by simp_all
qed

text \<open>
  For a consistent comparator the stable sorted arrangement is unique, so the model
  agrees with every stable sorting algorithm.
\<close>

lemma Array_sort_unique:
  assumes "consistent_comparator c"
    and "sorted_wrt (\<lambda>a b. c a b \<le> 0) ys"
    and "\<And>k. filter (\<lambda>x. c x k = 0) ys = filter (\<lambda>x. c x k = 0) xs"
  shows "ys = Array_sort c xs"
proof (rule sorted_stable_unique [OF assms(1) assms(2)])
  show "sorted_wrt (\<lambda>a b. c a b \<le> 0) (Array_sort c xs)"
    using assms(1) by (rule sorted_Array_sort)
  fix k
  have "filter (\<lambda>x. c x k = 0) (Array_sort c xs) = filter (\<lambda>x. c x k = 0) xs"
    using equal_rows_mutually_le(1) [OF assms(1)] by (rule filter_Array_sort)
  then show "filter (\<lambda>x. c x k = 0) ys = filter (\<lambda>x. c x k = 0) (Array_sort c xs)"
    using assms(3) by simp
qed










end
